theory Spec2Isabelle
  imports Main
begin

section \<open>The batch notification dispatcher of src/app/api/resend/post/route.ts\<close>

text \<open>
  The route handler \<^verbatim>\<open>POST\<close> fetches the unsent tickets of validated payments, groups
  them by user, sends one e-mail per user through the Resend client and marks the tickets
  of every user whose e-mail went out as sent. The data store and the e-mail provider are
  external: their answers are inputs of the model, and every call made to them is logged.

  The values are those of the declared types: identifiers are integers, a name is a
  string, the provider answers with data or with an error. Two exceptions are outside the
  model: one thrown by the client constructor, which the outer \<^verbatim>\<open>catch\<close> turns into a
  500 response, and one thrown by the template inside a task, which rejects that task's
  promise.
\<close>

subsection \<open>Data as the route declares it\<close>

text \<open>
  \<^verbatim>\<open>interface UserData\<close>. The declared type of \<^verbatim>\<open>email\<close> is \<^verbatim>\<open>string\<close>, but the handler
  tests \<^verbatim>\<open>!user.email\<close>, which is true for \<^verbatim>\<open>null\<close>, \<^verbatim>\<open>undefined\<close> and the empty string:
  the field is an option here, \<open>None\<close> for the first two. Strings are lists of code
  units in the ASCII range.
\<close>

record UserData =
  id_user :: int
  name :: string
  email :: "string option"
  id_card :: string

text \<open>
  A joined relation arrives as \<^verbatim>\<open>null\<close>, as one object or as an array of objects; the
  handler accepts the three shapes for \<^verbatim>\<open>pay_data\<close> and for \<^verbatim>\<open>user_data\<close>.
\<close>

datatype 'a relation = RelNull | RelObject 'a | RelArray "'a list"

record PayData =
  id_pay :: int
  validated :: bool
  user_data :: "UserData relation"

record TicketData =
  id_tickets :: int
  tickets :: string
  email_send :: bool
  pay_data :: "PayData relation"

text \<open>
  The values of \<^verbatim>\<open>usersToEmail\<close>: the four user fields and the tickets pushed so far
  (the field \<^verbatim>\<open>tickets\<close> of the source, renamed because \<^verbatim>\<open>TicketData\<close> has one too).
\<close>

record UserGroup = UserData +
  user_tickets :: "TicketData list"

text \<open>The entries of \<^verbatim>\<open>results.success\<close> and \<^verbatim>\<open>results.failed\<close>.\<close>

record SuccessEntry =
  success_id_user :: int
  email_id :: string

record FailedEntry =
  failed_id_user :: int
  error :: string

record Results =
  success :: "SuccessEntry list"
  failed :: "FailedEntry list"

subsection \<open>The external services\<close>

text \<open>
  The props handed to the \<^verbatim>\<open>TicketEmail\<close> template (\<^verbatim>\<open>name\<close>, \<^verbatim>\<open>tickets\<close>,
  \<^verbatim>\<open>ticketCount\<close>, \<^verbatim>\<open>cardId\<close>) and the argument of \<^verbatim>\<open>resend.emails.send\<close>
  (\<^verbatim>\<open>from\<close>, \<^verbatim>\<open>to\<close>, \<^verbatim>\<open>subject\<close>, \<^verbatim>\<open>react\<close>). The template itself is outside the
  route: the \<^verbatim>\<open>react\<close> field is kept as the props it is applied to.
\<close>

record TicketEmailProps =
  props_name :: string
  props_tickets :: string
  ticketCount :: nat
  cardId :: string

record EmailRequest =
  from_addr :: string
  to_addr :: string
  subject :: string
  react :: TicketEmailProps

text \<open>
  The error object of the provider: its \<^verbatim>\<open>message\<close> and the text \<^verbatim>\<open>JSON.stringify\<close>
  gives for the whole object. The provider answers with \<^verbatim>\<open>data\<close> or with \<^verbatim>\<open>error\<close>,
  never with both null.
\<close>

record ErrorResponse =
  err_message :: string
  err_json :: string

datatype SendResponse = SendData string | SendError ErrorResponse

text \<open>The error object of the data store; an answer of the store is an error or none.\<close>

record PostgrestError =
  pg_message :: string

record FetchResponse =
  fetch_data :: "TicketData list option"
  fetch_error :: "PostgrestError option"

text \<open>
  The two services the per-user task calls. A task makes at most one call to each, so the
  first argument, the user on whose behalf the call is made, lets the answer differ from
  call to call even when two users produce the same request.
\<close>

record Services =
  emails_send :: "int \<Rightarrow> EmailRequest \<Rightarrow> SendResponse"
  update_in :: "int \<Rightarrow> int list \<Rightarrow> PostgrestError option"

text \<open>The calls that leave the handler, each tagged with the user of the calling task.\<close>

datatype call = FetchCall | SendCall int EmailRequest | UpdateCall int "int list"

text \<open>
  The column \<^verbatim>\<open>email_send\<close> of the table \<^verbatim>\<open>tickets\<close>, by \<^verbatim>\<open>id_tickets\<close>. The statement
  \<^verbatim>\<open>update({ email_send: true }).in('id_tickets', ids)\<close> sets it for the rows listed and
  for no other row.
\<close>

type_synonym tickets_table = "int \<Rightarrow> bool"

definition update_email_send :: "int list \<Rightarrow> tickets_table \<Rightarrow> tickets_table" where
  "update_email_send ids db = (\<lambda>i. if i \<in> set ids then True else db i)"

subsection \<open>Step 3: grouping by user\<close>

text \<open>\<^verbatim>\<open>Array.isArray(x) ? x[0] : x\<close>: the first element of an array, the object itself otherwise.\<close>

fun first_of :: "'a relation \<Rightarrow> 'a option" where
  "first_of RelNull = None"
| "first_of (RelObject a) = Some a"
| "first_of (RelArray []) = None"
| "first_of (RelArray (a # _)) = Some a"

definition resolve_user :: "TicketData \<Rightarrow> UserData option" where
  "resolve_user ticket =
     (case first_of (pay_data ticket) of
        None \<Rightarrow> None
      | Some payData \<Rightarrow> first_of (user_data payData))"

text \<open>
  \<^verbatim>\<open>usersToEmail\<close> is an object whose keys are \<^verbatim>\<open>String(user.id_user)\<close>. \<^verbatim>\<open>String\<close> is
  injective on numbers, so the key is kept as the number; the properties are listed in the
  order of their creation.
\<close>

type_synonym usersToEmail = "(int \<times> UserGroup) list"

fun lookup :: "usersToEmail \<Rightarrow> int \<Rightarrow> UserGroup option" where
  "lookup [] k = None"
| "lookup ((k', g) # m) k = (if k' = k then Some g else lookup m k)"

fun push_ticket :: "int \<Rightarrow> TicketData \<Rightarrow> usersToEmail \<Rightarrow> usersToEmail" where
  "push_ticket k t [] = []"
| "push_ticket k t ((k', g) # m) =
     (if k' = k then (k', g\<lparr>user_tickets := user_tickets g @ [t]\<rparr>) # m
      else (k', g) # push_ticket k t m)"

definition new_group :: "UserData \<Rightarrow> UserGroup" where
  "new_group user =
     \<lparr>id_user = id_user user, name = name user, email = email user,
      id_card = id_card user, user_tickets = []\<rparr>"

text \<open>One iteration of \<^verbatim>\<open>for (const ticket of ticketsData)\<close>.\<close>

definition group_step :: "usersToEmail \<Rightarrow> TicketData \<Rightarrow> usersToEmail" where
  "group_step m ticket =
     (case resolve_user ticket of
        None \<Rightarrow> m
      | Some user \<Rightarrow>
          let groupKey = id_user user;
              m' = (if lookup m groupKey = None then m @ [(groupKey, new_group user)] else m)
          in push_ticket groupKey ticket m')"

definition group_tickets :: "TicketData list \<Rightarrow> usersToEmail" where
  "group_tickets ticketsData = foldl group_step [] ticketsData"

text \<open>
  \<^verbatim>\<open>Object.values\<close> lists the properties whose key is an array index (the canonical
  string of an integer from 0 to 2^32 - 2) first, in ascending order, and the others after
  them in the order of their creation.
\<close>

definition is_array_index :: "int \<Rightarrow> bool" where
  "is_array_index k \<longleftrightarrow> 0 \<le> k \<and> k < 4294967295"

definition Object_values :: "(int \<times> 'v) list \<Rightarrow> 'v list" where
  "Object_values m =
     map snd (sort_key fst (filter (\<lambda>kv. is_array_index (fst kv)) m)
              @ filter (\<lambda>kv. \<not> is_array_index (fst kv)) m)"

definition groups_of :: "TicketData list \<Rightarrow> UserGroup list" where
  "groups_of ticketsData = Object_values (group_tickets ticketsData)"

subsection \<open>Step 4: the task of one user\<close>

definition padStart :: "nat \<Rightarrow> char \<Rightarrow> string \<Rightarrow> string" where
  "padStart n c s = replicate (n - length s) c @ s"

fun join :: "string \<Rightarrow> string list \<Rightarrow> string" where
  "join sep [] = []"
| "join sep [s] = s"
| "join sep (s # t # ss) = s @ sep @ join sep (t # ss)"

text \<open>
  \<^verbatim>\<open>toUpperCase\<close> on the code units below 128: the 26 small letters change, nothing else
  does. The Unicode case mapping of the other code units is not modelled: what is proved
  about the capitalized name is proved for names whose first code unit is below 128.
\<close>

definition toUpperCase_char :: "char \<Rightarrow> char" where
  "toUpperCase_char c =
     (case map_of (zip ''abcdefghijklmnopqrstuvwxyz'' ''ABCDEFGHIJKLMNOPQRSTUVWXYZ'') c of
        Some C \<Rightarrow> C
      | None \<Rightarrow> c)"

definition toUpperCase :: "string \<Rightarrow> string" where
  "toUpperCase s = map toUpperCase_char s"

text \<open>\<^verbatim>\<open>user.name.charAt(0).toUpperCase() + user.name.slice(1)\<close>\<close>

definition capitalized :: "string \<Rightarrow> string" where
  "capitalized s = toUpperCase (take 1 s) @ drop 1 s"

definition render_request :: "string \<Rightarrow> UserGroup \<Rightarrow> EmailRequest" where
  "render_request addr user =
     (let tickets' = map (\<lambda>t. padStart 4 (CHR ''0'') (tickets t)) (user_tickets user);
          nameToLowerCase = capitalized (name user)
      in \<lparr>from_addr = ''JuegacnNosotros <noreply@juegacnnosotros.com>'',
          to_addr = addr,
          subject = ''Tu Compra ha sido Aprobada '' @ nameToLowerCase @ '' '',
          react = \<lparr>props_name = (if nameToLowerCase = [] then ''Participante'' else nameToLowerCase),
                   props_tickets = join '', '' tickets',
                   ticketCount = length tickets',
                   cardId = id_card user\<rparr>\<rparr>)"

text \<open>
  What the task of one user settles to: it returns one of the two objects
  \<^verbatim>\<open>{ status: 'fulfilled', value }\<close> and \<^verbatim>\<open>{ status: 'rejected', reason }\<close>, or it throws.
\<close>

datatype task_value = StatusFulfilled SuccessEntry | StatusRejected FailedEntry

datatype settled = PromiseFulfilled task_value | PromiseRejected FailedEntry

text \<open>\<^verbatim>\<open>sendError.message || JSON.stringify(sendError)\<close>\<close>

definition send_error_text :: "ErrorResponse \<Rightarrow> string" where
  "send_error_text e = (if err_message e = [] then err_json e else err_message e)"

text \<open>
  The body of the \<^verbatim>\<open>async (user) => ...\<close> of \<^verbatim>\<open>emailPromises\<close>: the settled result, the
  calls made and the table afterwards. An update that the store answers with an error
  leaves the table as it was.
\<close>

definition emailPromise ::
  "Services \<Rightarrow> UserGroup \<Rightarrow> tickets_table \<Rightarrow> settled \<times> call list \<times> tickets_table" where
  "emailPromise sv user db =
     (case email user of
        None \<Rightarrow>
          (PromiseFulfilled (StatusRejected
             \<lparr>failed_id_user = id_user user, error = ''El usuario no tiene un email registrado.''\<rparr>),
           [], db)
      | Some addr \<Rightarrow>
          if addr = [] then
            (PromiseFulfilled (StatusRejected
               \<lparr>failed_id_user = id_user user, error = ''El usuario no tiene un email registrado.''\<rparr>),
             [], db)
          else
            let req = render_request addr user in
            (case emails_send sv (id_user user) req of
               SendError sendError \<Rightarrow>
                 (PromiseRejected
                    \<lparr>failed_id_user = id_user user, error = send_error_text sendError\<rparr>,
                  [SendCall (id_user user) req], db)
             | SendData sent_id \<Rightarrow>
                 let ticketIdsToUpdate = map id_tickets (user_tickets user) in
                 (case update_in sv (id_user user) ticketIdsToUpdate of
                    Some updateError \<Rightarrow>
                      (PromiseRejected
                         \<lparr>failed_id_user = id_user user,
                          error = ''Email sent, but DB update failed: '' @ pg_message updateError\<rparr>,
                       [SendCall (id_user user) req, UpdateCall (id_user user) ticketIdsToUpdate],
                       db)
                  | None \<Rightarrow>
                      (PromiseFulfilled (StatusFulfilled
                         \<lparr>success_id_user = id_user user, email_id = sent_id\<rparr>),
                       [SendCall (id_user user) req, UpdateCall (id_user user) ticketIdsToUpdate],
                       update_email_send ticketIdsToUpdate db))))"

subsection \<open>Steps 5 and 6: settling every task and partitioning the results\<close>

text \<open>
  \<^verbatim>\<open>Promise.allSettled(Object.values(usersToEmail).map(...))\<close>: every task runs to its
  end and its result is kept at the position of its user, whatever the other tasks do. The
  tasks are run here one after the other. Their updates set disjoint or equal flags to
  true and so commute (lemma \<open>update_email_send_commute\<close>), and a task reads nothing
  another one writes: another interleaving gives the same results and the same table, and
  the same calls for each user.
\<close>

fun allSettled ::
  "Services \<Rightarrow> UserGroup list \<Rightarrow> tickets_table \<Rightarrow> settled list \<times> call list \<times> tickets_table" where
  "allSettled sv [] db = ([], [], db)"
| "allSettled sv (user # users) db =
     (case emailPromise sv user db of
        (r, cs, db') \<Rightarrow>
          (case allSettled sv users db' of
             (rs, cs', db'') \<Rightarrow> (r # rs, cs @ cs', db'')))"

text \<open>
  One iteration of \<^verbatim>\<open>settledResults.forEach\<close>. The tests \<^verbatim>\<open>res.value\<close> and
  \<^verbatim>\<open>res.reason\<close> hold in it, both being objects.
\<close>

fun collect :: "Results \<Rightarrow> settled \<Rightarrow> Results" where
  "collect results (PromiseFulfilled (StatusFulfilled v)) =
     results\<lparr>success := success results @ [v]\<rparr>"
| "collect results (PromiseFulfilled (StatusRejected r)) =
     results\<lparr>failed := failed results @ [r]\<rparr>"
| "collect results (PromiseRejected r) =
     results\<lparr>failed := failed results @ [r]\<rparr>"

text \<open>Steps 3 to 6, which run once the fetch has returned a non-empty list.\<close>

definition dispatch ::
  "Services \<Rightarrow> TicketData list \<Rightarrow> tickets_table \<Rightarrow> Results \<times> call list \<times> tickets_table" where
  "dispatch sv ticketsData db =
     (case allSettled sv (groups_of ticketsData) db of
        (settledResults, cs, db') \<Rightarrow>
          (foldl collect \<lparr>success = [], failed = []\<rparr> settledResults, cs, db'))"

subsection \<open>The handler\<close>

datatype body =
    Text string
  | Message string
  | MessageError string string
  | MessageResults string Results

record Response =
  status :: nat
  body :: body

text \<open>The message of the completed run; the character after \<^verbatim>\<open>env\<close> is the code unit U+00ED.\<close>

definition completed_message :: string where
  "completed_message = ''Proceso de env'' @ [char_of (237 :: nat)] @ ''o de correos completado.''"

text \<open>
  \<^verbatim>\<open>POST\<close>, with the \<^verbatim>\<open>authorization\<close> header of the request, the value of
  \<^verbatim>\<open>process.env.CRON_SECRET\<close>, the answer of the store to the query, the two services and
  the table. \<^verbatim>\<open>GET\<close> is the same handler.
\<close>

definition POST ::
  "string option \<Rightarrow> string option \<Rightarrow> FetchResponse \<Rightarrow> Services \<Rightarrow> tickets_table
   \<Rightarrow> Response \<times> call list \<times> tickets_table" where
  "POST authHeader cron_secret fetched sv db =
     (if authHeader
         \<noteq> Some (''Bearer '' @ (case cron_secret of None \<Rightarrow> ''undefined'' | Some s \<Rightarrow> s))
      then (\<lparr>status = 401, body = Text ''Unauthorized''\<rparr>, [], db)
      else
        (case fetch_error fetched of
           Some fetchError \<Rightarrow>
             (\<lparr>status = 500,
               body = MessageError ''Error al obtener usuarios para enviar correos''
                        (pg_message fetchError)\<rparr>,
              [FetchCall], db)
         | None \<Rightarrow>
             (case fetch_data fetched of
                None \<Rightarrow>
                  (\<lparr>status = 200, body = Message ''No hay correos pendientes por enviar.''\<rparr>,
                   [FetchCall], db)
              | Some ticketsData \<Rightarrow>
                  if ticketsData = [] then
                    (\<lparr>status = 200, body = Message ''No hay correos pendientes por enviar.''\<rparr>,
                     [FetchCall], db)
                  else
                    (case dispatch sv ticketsData db of
                       (results, cs, db') \<Rightarrow>
                         (\<lparr>status = 200, body = MessageResults completed_message results\<rparr>,
                          FetchCall # cs, db')))))"

definition GET ::
  "string option \<Rightarrow> string option \<Rightarrow> FetchResponse \<Rightarrow> Services \<Rightarrow> tickets_table
   \<Rightarrow> Response \<times> call list \<times> tickets_table" where
  "GET = POST"

subsection \<open>Reading a run\<close>

text \<open>
  Names for the parts of a run that the properties speak about: the key a ticket is
  grouped under, the identifiers a task updates, the entries a settled task contributes
  to each list (the two lists \<open>collect\<close> appends to), the result and the calls of a
  task (which do not depend on the table), and the entries and calls of one user.
\<close>

definition groupKey_of :: "TicketData \<Rightarrow> int option" where
  "groupKey_of ticket = map_option id_user (resolve_user ticket)"

definition ticket_ids :: "UserGroup \<Rightarrow> int list" where
  "ticket_ids user = map id_tickets (user_tickets user)"

fun success_of :: "settled \<Rightarrow> SuccessEntry list" where
  "success_of (PromiseFulfilled (StatusFulfilled v)) = [v]"
| "success_of _ = []"

fun failed_of :: "settled \<Rightarrow> FailedEntry list" where
  "failed_of (PromiseFulfilled (StatusFulfilled v)) = []"
| "failed_of (PromiseFulfilled (StatusRejected r)) = [r]"
| "failed_of (PromiseRejected r) = [r]"

definition settle :: "Services \<Rightarrow> UserGroup \<Rightarrow> settled" where
  "settle sv user = fst (emailPromise sv user (\<lambda>_. False))"

definition calls_of :: "Services \<Rightarrow> UserGroup \<Rightarrow> call list" where
  "calls_of sv user = fst (snd (emailPromise sv user (\<lambda>_. False)))"

definition acknowledged :: "Services \<Rightarrow> UserGroup \<Rightarrow> bool" where
  "acknowledged sv user \<longleftrightarrow> success_of (settle sv user) \<noteq> []"

definition success_for :: "int \<Rightarrow> Results \<Rightarrow> SuccessEntry list" where
  "success_for u results = filter (\<lambda>e. success_id_user e = u) (success results)"

definition failed_for :: "int \<Rightarrow> Results \<Rightarrow> FailedEntry list" where
  "failed_for u results = filter (\<lambda>e. failed_id_user e = u) (failed results)"

fun call_user :: "call \<Rightarrow> int option" where
  "call_user FetchCall = None"
| "call_user (SendCall u _) = Some u"
| "call_user (UpdateCall u _) = Some u"

definition calls_for :: "int \<Rightarrow> call list \<Rightarrow> call list" where
  "calls_for u cs = filter (\<lambda>c. call_user c = Some u) cs"

fun is_send :: "call \<Rightarrow> bool" where
  "is_send (SendCall _ _) = True"
| "is_send _ = False"

text \<open>The three parts of \<open>dispatch\<close>.\<close>

definition report :: "Services \<Rightarrow> TicketData list \<Rightarrow> tickets_table \<Rightarrow> Results" where
  "report sv ticketsData db = fst (dispatch sv ticketsData db)"

definition calls_made :: "Services \<Rightarrow> TicketData list \<Rightarrow> tickets_table \<Rightarrow> call list" where
  "calls_made sv ticketsData db = fst (snd (dispatch sv ticketsData db))"

definition table_after :: "Services \<Rightarrow> TicketData list \<Rightarrow> tickets_table \<Rightarrow> tickets_table" where
  "table_after sv ticketsData db = snd (snd (dispatch sv ticketsData db))"

subsection \<open>A run to evaluate\<close>

text \<open>
  Three users: the first owns the tickets 7 and 42, the second has no e-mail address and
  owns the ticket 3, the third owns the ticket 12345; a fourth ticket has a payment without
  a user. The services answer by the lists of users whose send and whose update fail.
\<close>

definition user1 :: UserData where
  "user1 = \<lparr>id_user = 1, name = ''juan'', email = Some ''juan@example.com'', id_card = ''V-123''\<rparr>"

definition user2 :: UserData where
  "user2 = \<lparr>id_user = 2, name = ''ana'', email = None, id_card = ''V-456''\<rparr>"

definition user3 :: UserData where
  "user3 = \<lparr>id_user = 3, name = ''Luis'', email = Some ''luis@example.com'', id_card = ''V-789''\<rparr>"

definition ticket_of :: "int \<Rightarrow> string \<Rightarrow> UserData relation \<Rightarrow> TicketData" where
  "ticket_of i code u =
     \<lparr>id_tickets = i, tickets = code, email_send = False,
      pay_data = RelObject \<lparr>id_pay = 100 + i, validated = True, user_data = u\<rparr>\<rparr>"

definition example_tickets :: "TicketData list" where
  "example_tickets =
     [ticket_of 10 ''7'' (RelArray [user1]), ticket_of 12 ''3'' (RelObject user2),
      ticket_of 11 ''42'' (RelArray [user1]), ticket_of 13 ''9'' RelNull,
      ticket_of 14 ''12345'' (RelArray [user3])]"

definition group1 :: UserGroup where
  "group1 = \<lparr>id_user = 1, name = ''juan'', email = Some ''juan@example.com'', id_card = ''V-123'',
             user_tickets = [ticket_of 10 ''7'' (RelArray [user1]), ticket_of 11 ''42'' (RelArray [user1])]\<rparr>"

definition group2 :: UserGroup where
  "group2 = \<lparr>id_user = 2, name = ''ana'', email = None, id_card = ''V-456'',
             user_tickets = [ticket_of 12 ''3'' (RelObject user2)]\<rparr>"

definition group3 :: UserGroup where
  "group3 = \<lparr>id_user = 3, name = ''Luis'', email = Some ''luis@example.com'', id_card = ''V-789'',
             user_tickets = [ticket_of 14 ''12345'' (RelArray [user3])]\<rparr>"

definition quota_error :: ErrorResponse where
  \<open>quota_error =
     \<lparr>err_message = ''You have reached your daily email sending quota'',
      err_json = ''{"name":"daily_quota_exceeded","message":"You have reached your daily email sending quota"}''\<rparr>\<close>

definition example_services :: "int list \<Rightarrow> int list \<Rightarrow> Services" where
  "example_services send_fails update_fails =
     \<lparr>emails_send = (\<lambda>u req. if u \<in> set send_fails then SendError quota_error
                              else SendData (''id-'' @ to_addr req)),
      update_in = (\<lambda>u ids. if u \<in> set update_fails
                            then Some \<lparr>pg_message = ''connection timeout''\<rparr> else None)\<rparr>"

definition no_flags :: tickets_table where
  "no_flags = (\<lambda>_. False)"

definition silent_error :: ErrorResponse where
  \<open>silent_error = \<lparr>err_message = [], err_json = ''{"name":"application_error","message":""}''\<rparr>\<close>

definition silent_services :: Services where
  "silent_services =
     \<lparr>emails_send = (\<lambda>u req. SendError silent_error), update_in = (\<lambda>u ids. None)\<rparr>"




section \<open>Properties\<close>

subsection \<open>The object of groups\<close>

lemma lookup_None_iff: "lookup m k = None \<longleftrightarrow> k \<notin> fst ` set m"
  by (induction m) (force split: if_splits)+

lemma lookup_Some_mem: "lookup m k = Some g \<Longrightarrow> (k, g) \<in> set m"
  by (induction m) (auto split: if_splits)

lemma mem_lookup: "distinct (map fst m) \<Longrightarrow> (k, g) \<in> set m \<Longrightarrow> lookup m k = Some g"
  by (induction m) force+

lemma map_fst_push_ticket: "map fst (push_ticket k t m) = map fst m"
  by (induction m) auto

lemma lookup_push_ticket:
  "lookup (push_ticket k t m) k' =
     (if k' = k then map_option (\<lambda>g. g\<lparr>user_tickets := user_tickets g @ [t]\<rparr>) (lookup m k)
      else lookup m k')"
  by (induction m) auto

lemma lookup_append:
  "lookup (m @ [(k, g)]) k' =
     (case lookup m k' of Some x \<Rightarrow> Some x | None \<Rightarrow> if k = k' then Some g else None)"
  by (induction m) auto

lemma map_fst_group_step:
  "map fst (group_step m t) =
     (case groupKey_of t of
        None \<Rightarrow> map fst m
      | Some k \<Rightarrow> if k \<in> set (map fst m) then map fst m else map fst m @ [k])"
  by (auto simp: group_step_def groupKey_of_def Let_def map_fst_push_ticket lookup_None_iff
           split: option.splits)

lemma distinct_group_step: "distinct (map fst m) \<Longrightarrow> distinct (map fst (group_step m t))"
  by (auto simp: map_fst_group_step split: option.splits)

lemma lookup_group_step_other:
  "groupKey_of t \<noteq> Some k \<Longrightarrow> lookup (group_step m t) k = lookup m k"
  by (auto simp: group_step_def groupKey_of_def Let_def lookup_push_ticket lookup_append
           split: option.splits)

lemma lookup_group_step_same:
  "resolve_user t = Some u \<Longrightarrow>
   lookup (group_step m t) (id_user u) =
     Some (case lookup m (id_user u) of
             None \<Rightarrow> (new_group u)\<lparr>user_tickets := [t]\<rparr>
           | Some g \<Rightarrow> g\<lparr>user_tickets := user_tickets g @ [t]\<rparr>)"
  by (auto simp: group_step_def Let_def lookup_push_ticket lookup_append new_group_def
           split: option.splits)

lemma group_tickets_snoc: "group_tickets (ts @ [t]) = group_step (group_tickets ts) t"
  by (simp add: group_tickets_def)

lemma distinct_group_tickets: "distinct (map fst (group_tickets ts))"
  by (induction ts rule: rev_induct) (simp_all add: group_tickets_snoc distinct_group_step, simp add: group_tickets_def)

lemma lookup_group_tickets:
  "lookup (group_tickets ts) k =
     (case filter (\<lambda>t. groupKey_of t = Some k) ts of
        [] \<Rightarrow> None
      | t # _ \<Rightarrow> Some ((new_group (the (resolve_user t)))
                        \<lparr>user_tickets := filter (\<lambda>t. groupKey_of t = Some k) ts\<rparr>))"
proof (induction ts rule: rev_induct)
  case Nil
  show ?case by (simp add: group_tickets_def)
next
  case (snoc t ts)
  show ?case
  proof (cases "groupKey_of t = Some k")
    case False
    then show ?thesis
      using snoc by (simp add: group_tickets_snoc lookup_group_step_other split: list.splits)
  next
    case True
    then obtain u where u: "resolve_user t = Some u" "id_user u = k"
      by (auto simp: groupKey_of_def)
    show ?thesis
      using snoc True u lookup_group_step_same [OF u(1), of "group_tickets ts"]
      by (auto simp: group_tickets_snoc split: list.splits)
  qed
qed


subsection \<open>Object.values\<close>

lemma set_Object_values: "set (Object_values m) = snd ` set m"
  by (auto simp: Object_values_def)

lemma distinct_map_fst_sort_key:
  "distinct (map fst (sort_key fst xs)) = distinct (map fst xs)"
  by (induction xs) (simp_all add: distinct_insort_key)

lemma distinct_fst_Object_order:
  assumes "distinct (map fst m)"
  shows "distinct (map fst (sort_key fst (filter P m) @ filter (\<lambda>kv. \<not> P kv) m))"
proof -
  have "distinct (map fst (filter P m))" "distinct (map fst (filter (\<lambda>kv. \<not> P kv) m))"
    using assms by (simp_all add: distinct_map_filter)
  moreover have "fst ` set (filter P m) \<inter> fst ` set (filter (\<lambda>kv. \<not> P kv) m) = {}"
    using assms by (induction m) force+
  ultimately show ?thesis
    by (simp add: distinct_map_fst_sort_key)
qed

lemma map_key_Object_values:
  assumes "\<forall>(k, g) \<in> set m. f g = k"
  shows "map f (Object_values m) =
         map fst (sort_key fst (filter (\<lambda>kv. is_array_index (fst kv)) m)
                  @ filter (\<lambda>kv. \<not> is_array_index (fst kv)) m)"
  using assms by (auto simp: Object_values_def)

subsection \<open>The groups\<close>

lemma lookup_group_tickets_Some:
  assumes "lookup (group_tickets ts) k = Some g"
  shows "id_user g = k"
    and "user_tickets g = filter (\<lambda>t. groupKey_of t = Some k) ts"
    and "\<exists>t u. user_tickets g = t # tl (user_tickets g) \<and> resolve_user t = Some u
           \<and> name g = name u \<and> email g = email u \<and> id_card g = id_card u"
proof -
  obtain t rest where f: "filter (\<lambda>t. groupKey_of t = Some k) ts = t # rest"
    and g: "g = (new_group (the (resolve_user t)))\<lparr>user_tickets := t # rest\<rparr>"
    using assms by (auto simp: lookup_group_tickets split: list.splits)
  have "t \<in> set (filter (\<lambda>t. groupKey_of t = Some k) ts)"
    by (simp add: f)
  then obtain u where u: "resolve_user t = Some u" "id_user u = k"
    by (auto simp: groupKey_of_def)
  show "id_user g = k"
    by (simp add: g u new_group_def)
  show "user_tickets g = filter (\<lambda>t. groupKey_of t = Some k) ts"
    by (simp add: g f)
  show "\<exists>t u. user_tickets g = t # tl (user_tickets g) \<and> resolve_user t = Some u
           \<and> name g = name u \<and> email g = email u \<and> id_card g = id_card u"
    by (rule exI [of _ t], rule exI [of _ u]) (simp add: g u new_group_def)
qed

lemma group_entry_key: "(k, g) \<in> set (group_tickets ts) \<Longrightarrow> id_user g = k"
  using mem_lookup [OF distinct_group_tickets, of k g ts] lookup_group_tickets_Some(1)
  by blast

lemma distinct_groups_of: "distinct (map id_user (groups_of ts))"
proof -
  have "\<forall>(k, g) \<in> set (group_tickets ts). id_user g = k"
    using group_entry_key by blast
  then show ?thesis
    unfolding groups_of_def
    by (simp only: map_key_Object_values distinct_fst_Object_order [OF distinct_group_tickets])
qed

lemma groups_of_iff:
  "g \<in> set (groups_of ts) \<longleftrightarrow> lookup (group_tickets ts) (id_user g) = Some g"
proof
  assume "g \<in> set (groups_of ts)"
  then obtain k where "(k, g) \<in> set (group_tickets ts)"
    by (auto simp: groups_of_def set_Object_values)
  then show "lookup (group_tickets ts) (id_user g) = Some g"
    using group_entry_key mem_lookup [OF distinct_group_tickets] by blast
next
  assume "lookup (group_tickets ts) (id_user g) = Some g"
  then show "g \<in> set (groups_of ts)"
    by (force simp: groups_of_def set_Object_values dest: lookup_Some_mem)
qed

lemma group_user_tickets:
  assumes "g \<in> set (groups_of ts)"
  shows "user_tickets g = filter (\<lambda>t. groupKey_of t = Some (id_user g)) ts"
    and "user_tickets g \<noteq> []"
  using assms lookup_group_tickets_Some [of ts "id_user g" g] unfolding groups_of_iff
  by auto

lemma group_exists:
  assumes "t \<in> set ts" "groupKey_of t = Some k"
  shows "\<exists>g \<in> set (groups_of ts). id_user g = k"
proof -
  have "filter (\<lambda>t. groupKey_of t = Some k) ts \<noteq> []"
    using assms by (auto simp: filter_empty_conv)
  then obtain g where g: "lookup (group_tickets ts) k = Some g"
    by (cases "filter (\<lambda>t. groupKey_of t = Some k) ts") (simp_all add: lookup_group_tickets)
  then have "(k, g) \<in> set (group_tickets ts)"
    by (rule lookup_Some_mem)
  then show ?thesis
    using group_entry_key by (force simp: groups_of_def set_Object_values)
qed


subsection \<open>One task\<close>

lemma emailPromise_eq:
  "emailPromise sv g db =
     (settle sv g, calls_of sv g,
      if acknowledged sv g then update_email_send (ticket_ids g) db else db)"
  by (simp add: emailPromise_def settle_def calls_of_def acknowledged_def ticket_ids_def Let_def
           split: option.splits SendResponse.splits)

lemma settle_one_entry: "length (success_of (settle sv g)) + length (failed_of (settle sv g)) = 1"
  by (simp add: emailPromise_def settle_def Let_def split: option.splits SendResponse.splits)

lemma success_of_settle_user: "e \<in> set (success_of (settle sv g)) \<Longrightarrow> success_id_user e = id_user g"
  by (auto simp: emailPromise_def settle_def Let_def split: option.splits SendResponse.splits if_splits)

lemma failed_of_settle_user: "e \<in> set (failed_of (settle sv g)) \<Longrightarrow> failed_id_user e = id_user g"
  by (auto simp: emailPromise_def settle_def Let_def split: option.splits SendResponse.splits if_splits)

lemma calls_of_user: "c \<in> set (calls_of sv g) \<Longrightarrow> call_user c = Some (id_user g)"
  by (auto simp: emailPromise_def calls_of_def Let_def split: option.splits SendResponse.splits if_splits)

subsection \<open>All tasks\<close>

lemma allSettled_eq:
  "allSettled sv gs db =
     (map (settle sv) gs, concat (map (calls_of sv) gs),
      foldl (\<lambda>d g. if acknowledged sv g then update_email_send (ticket_ids g) d else d) db gs)"
  by (induction gs arbitrary: db) (simp_all add: emailPromise_eq)

lemma final_table:
  "foldl (\<lambda>d g. if acknowledged sv g then update_email_send (ticket_ids g) d else d) db gs i
     \<longleftrightarrow> db i \<or> (\<exists>g \<in> set gs. acknowledged sv g \<and> i \<in> set (ticket_ids g))"
  by (induction gs arbitrary: db) (auto simp: update_email_send_def)

lemma update_email_send_commute:
  "update_email_send ids (update_email_send ids' db) = update_email_send ids' (update_email_send ids db)"
  by (auto simp: update_email_send_def)

lemma success_foldl_collect:
  "success (foldl collect r rs) = success r @ concat (map success_of rs)"
proof (induction rs arbitrary: r)
  case Nil
  show ?case by simp
next
  case (Cons x xs)
  show ?case by (cases "(r, x)" rule: collect.cases) (simp_all add: Cons)
qed

lemma failed_foldl_collect:
  "failed (foldl collect r rs) = failed r @ concat (map failed_of rs)"
proof (induction rs arbitrary: r)
  case Nil
  show ?case by simp
next
  case (Cons x xs)
  show ?case by (cases "(r, x)" rule: collect.cases) (simp_all add: Cons)
qed

lemma dispatch_eq:
  "dispatch sv ts db =
     (\<lparr>success = concat (map (\<lambda>g. success_of (settle sv g)) (groups_of ts)),
       failed = concat (map (\<lambda>g. failed_of (settle sv g)) (groups_of ts))\<rparr>,
      concat (map (calls_of sv) (groups_of ts)),
      foldl (\<lambda>d g. if acknowledged sv g then update_email_send (ticket_ids g) d else d) db
        (groups_of ts))"
  by (simp add: dispatch_def allSettled_eq success_foldl_collect failed_foldl_collect comp_def
           Results.equality)

text \<open>With one group per user, what the run holds for a user is what the user's task gave.\<close>

lemma filter_concat_own:
  assumes "distinct (map key gs)" "g \<in> set gs"
    and "\<And>g' e. g' \<in> set gs \<Longrightarrow> e \<in> set (out g') \<Longrightarrow> tag e = key g'"
  shows "filter (\<lambda>e. tag e = key g) (concat (map out gs)) = out g"
  using assms
proof (induction gs)
  case Nil
  then show ?case by simp
next
  case (Cons a gs)
  have own: "\<And>h. h \<in> set (a # gs) \<Longrightarrow> key h = key g \<Longrightarrow> filter (\<lambda>e. tag e = key g) (out h) = out h"
    using Cons.prems(3) by (auto simp: filter_id_conv)
  have other: "\<And>h. h \<in> set (a # gs) \<Longrightarrow> key h \<noteq> key g \<Longrightarrow> filter (\<lambda>e. tag e = key g) (out h) = []"
    using Cons.prems(3) by (auto simp: filter_empty_conv)
  show ?case
  proof (cases "g = a")
    case True
    have "key a \<notin> key ` set gs"
      using Cons.prems(1) by simp
    then have "\<forall>h \<in> set gs. key h \<noteq> key g"
      using True by (metis imageI)
    then have "filter (\<lambda>e. tag e = key g) (concat (map out gs)) = []"
      using other by (auto simp: filter_empty_conv)
    then show ?thesis
      using own [of a] True by simp
  next
    case False
    then have "g \<in> set gs" "key a \<noteq> key g"
      using Cons.prems(1,2) by auto
    then show ?thesis
      using Cons.IH Cons.prems other [of a] by simp
  qed
qed

lemma success_for_dispatch:
  assumes "g \<in> set (groups_of ts)"
  shows "success_for (id_user g) (fst (dispatch sv ts db)) = success_of (settle sv g)"
  unfolding success_for_def dispatch_eq
  using filter_concat_own [OF distinct_groups_of assms, of "\<lambda>g. success_of (settle sv g)" success_id_user]
  by (simp add: success_of_settle_user)

lemma failed_for_dispatch:
  assumes "g \<in> set (groups_of ts)"
  shows "failed_for (id_user g) (fst (dispatch sv ts db)) = failed_of (settle sv g)"
  unfolding failed_for_def dispatch_eq
  using filter_concat_own [OF distinct_groups_of assms, of "\<lambda>g. failed_of (settle sv g)" failed_id_user]
  by (simp add: failed_of_settle_user)

lemma calls_for_dispatch:
  assumes "g \<in> set (groups_of ts)"
  shows "calls_for (id_user g) (fst (snd (dispatch sv ts db))) = calls_of sv g"
proof -
  let ?cs = "concat (map (calls_of sv) (groups_of ts))"
  have own: "filter (\<lambda>c. the (call_user c) = id_user g) ?cs = calls_of sv g"
    using filter_concat_own [OF distinct_groups_of assms, of "calls_of sv" "\<lambda>c. the (call_user c)"]
    by (simp add: calls_of_user)
  have "\<forall>c \<in> set ?cs. \<exists>u. call_user c = Some u"
    using calls_of_user by fastforce
  then have "\<And>c. c \<in> set ?cs \<Longrightarrow>
      (call_user c = Some (id_user g)) = (the (call_user c) = id_user g)"
    by force
  then have "filter (\<lambda>c. call_user c = Some (id_user g)) ?cs
      = filter (\<lambda>c. the (call_user c) = id_user g) ?cs"
    by (intro filter_cong refl)
  then show ?thesis
    using own by (simp add: calls_for_def dispatch_eq)
qed

lemma table_dispatch:
  "snd (snd (dispatch sv ts db)) i \<longleftrightarrow>
     db i \<or> (\<exists>g \<in> set (groups_of ts). acknowledged sv g \<and> i \<in> set (ticket_ids g))"
  by (simp add: dispatch_eq final_table)


subsection \<open>Evaluating the example, and what a task depends on\<close>

lemmas example_defs = user1_def user2_def user3_def ticket_of_def example_tickets_def
  group1_def group2_def group3_def quota_error_def example_services_def no_flags_def

lemmas run_defs = groups_of_def group_tickets_def group_step_def resolve_user_def new_group_def
  Object_values_def is_array_index_def dispatch_def emailPromise_def render_request_def
  padStart_def capitalized_def toUpperCase_def toUpperCase_char_def send_error_text_def
  update_email_send_def report_def calls_made_def table_after_def success_for_def failed_for_def
  calls_for_def groupKey_of_def

lemma groups_of_example: "groups_of example_tickets = [group1, group2, group3]"
  by (simp add: example_defs run_defs)

lemma settle_cong:
  assumes "emails_send sv (id_user g) = emails_send sv' (id_user g)"
    and "update_in sv (id_user g) = update_in sv' (id_user g)"
  shows "settle sv g = settle sv' g" and "calls_of sv g = calls_of sv' g"
  unfolding settle_def calls_of_def emailPromise_def assms by (rule refl)+

lemma ticket_ids_disjoint:
  assumes d: "distinct (map id_tickets ts)"
    and g: "g \<in> set (groups_of ts)" and g': "g' \<in> set (groups_of ts)"
    and i: "i \<in> set (ticket_ids g)" and i': "i \<in> set (ticket_ids g')"
  shows "g = g'"
proof -
  obtain t where t: "t \<in> set ts" "groupKey_of t = Some (id_user g)" "id_tickets t = i"
    using i group_user_tickets(1) [OF g] by (auto simp: ticket_ids_def)
  obtain t' where t': "t' \<in> set ts" "groupKey_of t' = Some (id_user g')" "id_tickets t' = i"
    using i' group_user_tickets(1) [OF g'] by (auto simp: ticket_ids_def)
  have "inj_on id_tickets (set ts)"
    using d by (simp add: distinct_map)
  then have "t = t'"
    using t t' by (auto dest: inj_onD)
  then have "id_user g = id_user g'"
    using t t' by simp
  then show ?thesis
    using g g' by (simp add: groups_of_iff)
qed

lemma acknowledged_iff:
  assumes "g \<in> set (groups_of ts)"
  shows "acknowledged sv g \<longleftrightarrow> success_for (id_user g) (report sv ts db) \<noteq> []"
  using success_for_dispatch [OF assms, of sv db] by (simp add: acknowledged_def report_def)

subsection \<open>The four ways a task ends\<close>

lemma task_acknowledged:
  assumes "email g = Some addr" "addr \<noteq> []"
    and "emails_send sv (id_user g) (render_request addr g) = SendData mid"
    and "update_in sv (id_user g) (map id_tickets (user_tickets g)) = None"
  shows "emailPromise sv g d =
     (PromiseFulfilled (StatusFulfilled \<lparr>success_id_user = id_user g, email_id = mid\<rparr>),
      [SendCall (id_user g) (render_request addr g),
       UpdateCall (id_user g) (map id_tickets (user_tickets g))],
      update_email_send (map id_tickets (user_tickets g)) d)"
  using assms by (simp add: emailPromise_def Let_def)

lemma task_send_failed:
  assumes "email g = Some addr" "addr \<noteq> []"
    and "emails_send sv (id_user g) (render_request addr g) = SendError e"
  shows "emailPromise sv g d =
     (PromiseRejected \<lparr>failed_id_user = id_user g, error = send_error_text e\<rparr>,
      [SendCall (id_user g) (render_request addr g)], d)"
  using assms by (simp add: emailPromise_def Let_def)

lemma task_update_failed:
  assumes "email g = Some addr" "addr \<noteq> []"
    and "emails_send sv (id_user g) (render_request addr g) = SendData mid"
    and "update_in sv (id_user g) (map id_tickets (user_tickets g)) = Some ue"
  shows "emailPromise sv g d =
     (PromiseRejected \<lparr>failed_id_user = id_user g,
        error = ''Email sent, but DB update failed: '' @ pg_message ue\<rparr>,
      [SendCall (id_user g) (render_request addr g),
       UpdateCall (id_user g) (map id_tickets (user_tickets g))], d)"
  using assms by (simp add: emailPromise_def Let_def)

lemma task_missing_email:
  assumes "email g = None \<or> email g = Some []"
  shows "emailPromise sv g d =
     (PromiseFulfilled (StatusRejected
        \<lparr>failed_id_user = id_user g, error = ''El usuario no tiene un email registrado.''\<rparr>),
      [], d)"
  using assms by (auto simp: emailPromise_def)

lemma flags_kept:
  assumes "g \<in> set (groups_of ts)" "\<not> acknowledged sv g" "distinct (map id_tickets ts)"
    and "t \<in> set (user_tickets g)"
  shows "table_after sv ts db (id_tickets t) = db (id_tickets t)"
proof -
  have i: "id_tickets t \<in> set (ticket_ids g)"
    using assms(4) by (simp add: ticket_ids_def)
  have "\<not> (\<exists>g' \<in> set (groups_of ts). acknowledged sv g' \<and> id_tickets t \<in> set (ticket_ids g'))"
    using ticket_ids_disjoint [OF assms(3) assms(1) _ i] assms(2) by blast
  then show ?thesis
    unfolding table_after_def table_dispatch by blast
qed

lemma removeAll_unresolved:
  assumes "resolve_user t = None"
  shows "foldl group_step m (removeAll t ts) = foldl group_step m ts"
proof (induction ts arbitrary: m)
  case Nil
  show ?case by simp
next
  case (Cons x xs)
  have "group_step m' t = m'" for m'
    using assms by (simp add: group_step_def)
  then show ?case
    using Cons by auto
qed

text \<open>
  A request with the right header whose query returns a non-empty list is answered with
  the report of \<open>dispatch\<close>: the properties below are stated on its three parts.
\<close>

lemma POST_completed:
  assumes "authHeader = Some (''Bearer '' @ (case cron_secret of None \<Rightarrow> ''undefined'' | Some s \<Rightarrow> s))"
    and "fetch_error fetched = None" and "fetch_data fetched = Some ts" and "ts \<noteq> []"
  shows "POST authHeader cron_secret fetched sv db =
           (\<lparr>status = 200, body = MessageResults completed_message (report sv ts db)\<rparr>,
            FetchCall # calls_made sv ts db, table_after sv ts db)"
  using assms
  by (simp add: POST_def report_def calls_made_def table_after_def split: prod.splits)

lemma send_calls_of:
  "filter is_send (calls_of sv g) =
     (case email g of
        None \<Rightarrow> []
      | Some addr \<Rightarrow> if addr = [] then [] else [SendCall (id_user g) (render_request addr g)])"
  by (simp add: calls_of_def emailPromise_def Let_def split: option.splits SendResponse.splits)










section \<open>The claims\<close>

text \<open>
  C1. Every user who has a fetched ticket that resolves to a user record has exactly one
  entry in the report of the run: the number of success entries with the user's identifier
  plus the number of failed entries with it is one.
\<close>

theorem one_entry_per_group:
  assumes "t \<in> set ts" and "resolve_user t = Some u"
  shows "length (success_for (id_user u) (report sv ts db))
         + length (failed_for (id_user u) (report sv ts db)) = 1"
proof -
  obtain g where g: "g \<in> set (groups_of ts)" "id_user g = id_user u"
    using group_exists [of t ts "id_user u"] assms by (auto simp: groupKey_of_def)
  show ?thesis
    using success_for_dispatch [OF g(1), of sv db] failed_for_dispatch [OF g(1), of sv db]
      settle_one_entry [of sv g]
    by (simp add: report_def g(2))
qed

theorem one_entry_per_group_witness:
  "ticket_of 10 ''7'' (RelArray [user1]) \<in> set example_tickets
   \<and> resolve_user (ticket_of 10 ''7'' (RelArray [user1])) = Some user1
   \<and> length (success_for (id_user user1) (report (example_services [] []) example_tickets no_flags))
     + length (failed_for (id_user user1) (report (example_services [] []) example_tickets no_flags)) = 1"
  using one_entry_per_group [of "ticket_of 10 ''7'' (RelArray [user1])" example_tickets user1
      "example_services [] []" no_flags]
  by (simp add: example_defs resolve_user_def)

text \<open>
  C2. What a run records for a group depends on the answers the services give to that
  group's own calls only. Two runs over the same tickets whose services agree on the calls
  of one user, whatever they answer to the other users, give that user the same success
  entries, the same failed entries and the same calls, and leave the flags of the user's
  tickets equal (ticket identifiers being unique).
\<close>

theorem sibling_independence:
  assumes "g \<in> set (groups_of ts)"
    and "emails_send sv (id_user g) = emails_send sv' (id_user g)"
    and "update_in sv (id_user g) = update_in sv' (id_user g)"
  shows "success_for (id_user g) (report sv ts db) = success_for (id_user g) (report sv' ts db)
       \<and> failed_for (id_user g) (report sv ts db) = failed_for (id_user g) (report sv' ts db)
       \<and> calls_for (id_user g) (calls_made sv ts db) = calls_for (id_user g) (calls_made sv' ts db)
       \<and> (distinct (map id_tickets ts) \<longrightarrow>
            (\<forall>t \<in> set (user_tickets g).
               table_after sv ts db (id_tickets t) = table_after sv' ts db (id_tickets t)))"
proof -
  have s: "settle sv g = settle sv' g" and c: "calls_of sv g = calls_of sv' g"
    using settle_cong [OF assms(2,3)] by simp_all
  have a: "acknowledged sv g = acknowledged sv' g"
    by (simp add: acknowledged_def s)
  have "table_after sv ts db (id_tickets t) = table_after sv' ts db (id_tickets t)"
    if d: "distinct (map id_tickets ts)" and t: "t \<in> set (user_tickets g)" for t
  proof -
    have i: "id_tickets t \<in> set (ticket_ids g)"
      using t by (simp add: ticket_ids_def)
    have "(\<exists>g' \<in> set (groups_of ts). acknowledged w g' \<and> id_tickets t \<in> set (ticket_ids g'))
            = acknowledged w g" for w
      using i assms(1) ticket_ids_disjoint [OF d assms(1)] by blast
    then show ?thesis
      by (simp add: table_after_def table_dispatch a)
  qed
  then show ?thesis
    using assms(1) by (simp add: report_def calls_made_def success_for_dispatch
        failed_for_dispatch calls_for_dispatch s c)
qed

theorem sibling_independence_witness:
  "group1 \<in> set (groups_of example_tickets)
   \<and> emails_send (example_services [] []) (id_user group1) = emails_send (example_services [3] []) (id_user group1)
   \<and> update_in (example_services [] []) (id_user group1) = update_in (example_services [3] []) (id_user group1)
   \<and> distinct (map id_tickets example_tickets)
   \<and> failed_for 3 (report (example_services [] []) example_tickets no_flags)
       \<noteq> failed_for 3 (report (example_services [3] []) example_tickets no_flags)
   \<and> success_for (id_user group1) (report (example_services [] []) example_tickets no_flags)
       = success_for (id_user group1) (report (example_services [3] []) example_tickets no_flags)
   \<and> failed_for (id_user group1) (report (example_services [] []) example_tickets no_flags)
       = failed_for (id_user group1) (report (example_services [3] []) example_tickets no_flags)
   \<and> calls_for (id_user group1) (calls_made (example_services [] []) example_tickets no_flags)
       = calls_for (id_user group1) (calls_made (example_services [3] []) example_tickets no_flags)
   \<and> table_after (example_services [] []) example_tickets no_flags 10
       = table_after (example_services [3] []) example_tickets no_flags 10
   \<and> table_after (example_services [] []) example_tickets no_flags 11
       = table_after (example_services [3] []) example_tickets no_flags 11"
proof -
  have h1: "group1 \<in> set (groups_of example_tickets)"
    by (simp add: groups_of_example)
  have h2: "emails_send (example_services [] []) (id_user group1) = emails_send (example_services [3] []) (id_user group1)"
    by (simp add: example_defs)
  have h3: "update_in (example_services [] []) (id_user group1) = update_in (example_services [3] []) (id_user group1)"
    by (simp add: example_defs)
  have h4: "distinct (map id_tickets example_tickets)"
    by (simp add: example_defs)
  have h5: "failed_for 3 (report (example_services [] []) example_tickets no_flags)
       \<noteq> failed_for 3 (report (example_services [3] []) example_tickets no_flags)"
    by (simp add: example_defs run_defs)
  have h6: "set (map id_tickets (user_tickets group1)) = {10, 11}"
    by (simp add: example_defs)
  have "\<forall>i \<in> set (map id_tickets (user_tickets group1)).
      table_after (example_services [] []) example_tickets no_flags i
      = table_after (example_services [3] []) example_tickets no_flags i"
    using sibling_independence [OF h1 h2 h3, of no_flags] h4 by simp
  then have "table_after (example_services [] []) example_tickets no_flags 10
       = table_after (example_services [3] []) example_tickets no_flags 10"
    and "table_after (example_services [] []) example_tickets no_flags 11
       = table_after (example_services [3] []) example_tickets no_flags 11"
    unfolding h6 by blast+
  then show ?thesis
    using sibling_independence [OF h1 h2 h3, of no_flags] h1 h2 h3 h4 h5 by blast
qed

text \<open>
  C3. A group whose send is answered with a message identifier and whose update is
  answered without error has one success entry, holding the user's identifier and that
  message identifier, and no failed entry. Its task makes one send call and one update
  call, for exactly the identifiers of the group's tickets; every ticket of the group is
  flagged afterwards; the task's update leaves every other flag as it was; and over the
  whole run a flag changes only for a ticket of a group that has a success entry.
\<close>

theorem sent_and_updated:
  assumes "g \<in> set (groups_of ts)"
    and "email g = Some addr" and "addr \<noteq> []"
    and "emails_send sv (id_user g) (render_request addr g) = SendData mid"
    and "update_in sv (id_user g) (map id_tickets (user_tickets g)) = None"
  shows "success_for (id_user g) (report sv ts db)
           = [\<lparr>success_id_user = id_user g, email_id = mid\<rparr>]
       \<and> failed_for (id_user g) (report sv ts db) = []
       \<and> calls_for (id_user g) (calls_made sv ts db)
           = [SendCall (id_user g) (render_request addr g),
              UpdateCall (id_user g) (map id_tickets (user_tickets g))]
       \<and> (\<forall>t \<in> set (user_tickets g). table_after sv ts db (id_tickets t))
       \<and> (\<forall>d i. snd (snd (emailPromise sv g d)) i
             = (if i \<in> id_tickets ` set (user_tickets g) then True else d i))
       \<and> (\<forall>i. table_after sv ts db i \<noteq> db i \<longrightarrow>
             (\<exists>g' \<in> set (groups_of ts). i \<in> id_tickets ` set (user_tickets g')
                \<and> success_for (id_user g') (report sv ts db) \<noteq> []))"
proof -
  note task = task_acknowledged [OF assms(2-5)]
  have s: "settle sv g = PromiseFulfilled (StatusFulfilled \<lparr>success_id_user = id_user g, email_id = mid\<rparr>)"
    and c: "calls_of sv g = [SendCall (id_user g) (render_request addr g),
              UpdateCall (id_user g) (map id_tickets (user_tickets g))]"
    by (simp_all add: settle_def calls_of_def task)
  have ack: "acknowledged sv g"
    by (simp add: acknowledged_def s)
  have flags: "\<forall>t \<in> set (user_tickets g). table_after sv ts db (id_tickets t)"
    using assms(1) ack by (auto simp: table_after_def table_dispatch ticket_ids_def)
  have step: "\<forall>d i. snd (snd (emailPromise sv g d)) i
             = (if i \<in> id_tickets ` set (user_tickets g) then True else d i)"
    by (simp add: task update_email_send_def)
  have others: "\<exists>g' \<in> set (groups_of ts). i \<in> id_tickets ` set (user_tickets g')
                \<and> success_for (id_user g') (report sv ts db) \<noteq> []"
    if changed: "table_after sv ts db i \<noteq> db i" for i
  proof -
    obtain g' where "g' \<in> set (groups_of ts)" "acknowledged sv g'" "i \<in> set (ticket_ids g')"
      using changed by (auto simp: table_after_def table_dispatch)
    then show ?thesis
      using acknowledged_iff [of g' ts sv db] by (auto simp: ticket_ids_def)
  qed
  show ?thesis
    using assms(1) flags step others
    by (simp add: report_def calls_made_def success_for_dispatch failed_for_dispatch
        calls_for_dispatch s c)
qed

theorem sent_and_updated_witness:
  "group1 \<in> set (groups_of example_tickets)
   \<and> email group1 = Some ''juan@example.com'' \<and> ''juan@example.com'' \<noteq> []
   \<and> emails_send (example_services [3] []) (id_user group1)
        (render_request ''juan@example.com'' group1) = SendData ''id-juan@example.com''
   \<and> update_in (example_services [3] []) (id_user group1) (map id_tickets (user_tickets group1)) = None
   \<and> success_for 1 (report (example_services [3] []) example_tickets no_flags)
        = [\<lparr>success_id_user = 1, email_id = ''id-juan@example.com''\<rparr>]
   \<and> failed_for 1 (report (example_services [3] []) example_tickets no_flags) = []
   \<and> calls_for 1 (calls_made (example_services [3] []) example_tickets no_flags)
        = [SendCall 1 (render_request ''juan@example.com'' group1), UpdateCall 1 [10, 11]]
   \<and> map (table_after (example_services [3] []) example_tickets no_flags) [10, 11, 12, 13, 14]
        = [True, True, False, False, False]"
proof -
  have h1: "group1 \<in> set (groups_of example_tickets)"
    by (simp add: groups_of_example)
  have h2: "email group1 = Some ''juan@example.com''" and h3: "''juan@example.com'' \<noteq> []"
    by (simp_all add: example_defs)
  have h4: "emails_send (example_services [3] []) (id_user group1)
        (render_request ''juan@example.com'' group1) = SendData ''id-juan@example.com''"
    by (simp add: example_defs render_request_def Let_def)
  have h5: "update_in (example_services [3] []) (id_user group1) (map id_tickets (user_tickets group1)) = None"
    by (simp add: example_defs)
  have ids: "id_user group1 = 1" "map id_tickets (user_tickets group1) = [10, 11]"
    by (simp_all add: example_defs)
  have t: "map (table_after (example_services [3] []) example_tickets no_flags) [10, 11, 12, 13, 14]
        = [True, True, False, False, False]"
    by (simp add: example_defs run_defs)
  show ?thesis
    using sent_and_updated [OF h1 h2 h3 h4 h5, of no_flags] h1 h2 h3 h4 h5 t
    unfolding ids by blast
qed

text \<open>
  C4, as the claim states it, fails when the provider's error has an empty message: the
  entry then carries the JSON text of the error object, which is not the message.
\<close>

theorem send_failure_message_counterexample:
  "group1 \<in> set (groups_of example_tickets)
   \<and> emails_send silent_services 1 (render_request ''juan@example.com'' group1) = SendError silent_error
   \<and> map error (failed_for 1 (report silent_services example_tickets no_flags))
       \<noteq> [err_message silent_error]"
  by (simp add: groups_of_example) (simp add: example_defs run_defs silent_services_def silent_error_def)

text \<open>
  C4, amended. A group whose send is answered with an error has one failed entry, whose
  text is the provider's message when that is not empty and the JSON text of the error
  object otherwise, and no success entry. Its task makes the send call and no update
  call, and every ticket of the group keeps its flag (ticket identifiers being unique).
\<close>

theorem send_failure:
  assumes "g \<in> set (groups_of ts)"
    and "email g = Some addr" and "addr \<noteq> []"
    and "emails_send sv (id_user g) (render_request addr g) = SendError e"
  shows "failed_for (id_user g) (report sv ts db)
           = [\<lparr>failed_id_user = id_user g,
               error = (if err_message e = [] then err_json e else err_message e)\<rparr>]
       \<and> success_for (id_user g) (report sv ts db) = []
       \<and> calls_for (id_user g) (calls_made sv ts db)
           = [SendCall (id_user g) (render_request addr g)]
       \<and> (distinct (map id_tickets ts) \<longrightarrow>
            (\<forall>t \<in> set (user_tickets g). table_after sv ts db (id_tickets t) = db (id_tickets t)))"
proof -
  note task = task_send_failed [OF assms(2-4)]
  have s: "settle sv g = PromiseRejected \<lparr>failed_id_user = id_user g, error = send_error_text e\<rparr>"
    and c: "calls_of sv g = [SendCall (id_user g) (render_request addr g)]"
    by (simp_all add: settle_def calls_of_def task)
  have "\<not> acknowledged sv g"
    by (simp add: acknowledged_def s)
  then have "distinct (map id_tickets ts) \<longrightarrow>
      (\<forall>t \<in> set (user_tickets g). table_after sv ts db (id_tickets t) = db (id_tickets t))"
    using flags_kept [OF assms(1)] by blast
  then show ?thesis
    using assms(1)
    by (simp add: report_def calls_made_def success_for_dispatch failed_for_dispatch
        calls_for_dispatch s c send_error_text_def)
qed

theorem send_failure_witness:
  "group3 \<in> set (groups_of example_tickets)
   \<and> email group3 = Some ''luis@example.com'' \<and> ''luis@example.com'' \<noteq> []
   \<and> emails_send (example_services [3] []) (id_user group3)
        (render_request ''luis@example.com'' group3) = SendError quota_error
   \<and> distinct (map id_tickets example_tickets)
   \<and> failed_for 3 (report (example_services [3] []) example_tickets no_flags)
        = [\<lparr>failed_id_user = 3, error = ''You have reached your daily email sending quota''\<rparr>]
   \<and> success_for 3 (report (example_services [3] []) example_tickets no_flags) = []
   \<and> calls_for 3 (calls_made (example_services [3] []) example_tickets no_flags)
        = [SendCall 3 (render_request ''luis@example.com'' group3)]
   \<and> table_after (example_services [3] []) example_tickets no_flags 14 = no_flags 14"
proof -
  have h1: "group3 \<in> set (groups_of example_tickets)"
    by (simp add: groups_of_example)
  have h2: "email group3 = Some ''luis@example.com''" and h3: "''luis@example.com'' \<noteq> []"
    by (simp_all add: example_defs)
  have h4: "emails_send (example_services [3] []) (id_user group3)
        (render_request ''luis@example.com'' group3) = SendError quota_error"
    by (simp add: example_defs)
  have h5: "distinct (map id_tickets example_tickets)"
    by (simp add: example_defs)
  have ids: "id_user group3 = 3" "set (user_tickets group3) = {ticket_of 14 ''12345'' (RelArray [user3])}"
    "id_tickets (ticket_of 14 ''12345'' (RelArray [user3])) = 14"
    "(if err_message quota_error = [] then err_json quota_error else err_message quota_error)
       = ''You have reached your daily email sending quota''"
    by (simp_all add: example_defs)
  show ?thesis
    using send_failure [OF h1 h2 h3 h4, of no_flags] h1 h2 h3 h4 h5
    by (simp add: ids)
qed

text \<open>
  C5. A group whose send is answered with a message identifier and whose update is
  answered with an error has one failed entry and no success entry. The text of the entry
  says that the e-mail was sent and that the update failed, followed by the message of the
  store's error; it is not the text of the missing-address entry. The task has made both
  calls.
\<close>

theorem update_failure:
  assumes "g \<in> set (groups_of ts)"
    and "email g = Some addr" and "addr \<noteq> []"
    and "emails_send sv (id_user g) (render_request addr g) = SendData mid"
    and "update_in sv (id_user g) (map id_tickets (user_tickets g)) = Some updateError"
  shows "failed_for (id_user g) (report sv ts db)
           = [\<lparr>failed_id_user = id_user g,
               error = ''Email sent, but DB update failed: '' @ pg_message updateError\<rparr>]
       \<and> success_for (id_user g) (report sv ts db) = []
       \<and> calls_for (id_user g) (calls_made sv ts db)
           = [SendCall (id_user g) (render_request addr g),
              UpdateCall (id_user g) (map id_tickets (user_tickets g))]
       \<and> ''Email sent, but DB update failed: '' @ pg_message updateError
           \<noteq> ''El usuario no tiene un email registrado.''"
proof -
  note task = task_update_failed [OF assms(2-5)]
  have s: "settle sv g = PromiseRejected \<lparr>failed_id_user = id_user g,
        error = ''Email sent, but DB update failed: '' @ pg_message updateError\<rparr>"
    and c: "calls_of sv g = [SendCall (id_user g) (render_request addr g),
              UpdateCall (id_user g) (map id_tickets (user_tickets g))]"
    by (simp_all add: settle_def calls_of_def task)
  show ?thesis
    using assms(1)
    by (simp add: report_def calls_made_def success_for_dispatch failed_for_dispatch
        calls_for_dispatch s c)
qed

theorem update_failure_witness:
  "group1 \<in> set (groups_of example_tickets)
   \<and> email group1 = Some ''juan@example.com'' \<and> ''juan@example.com'' \<noteq> []
   \<and> emails_send (example_services [3] [1]) (id_user group1)
        (render_request ''juan@example.com'' group1) = SendData ''id-juan@example.com''
   \<and> update_in (example_services [3] [1]) (id_user group1) (map id_tickets (user_tickets group1))
        = Some \<lparr>pg_message = ''connection timeout''\<rparr>
   \<and> failed_for 1 (report (example_services [3] [1]) example_tickets no_flags)
        = [\<lparr>failed_id_user = 1, error = ''Email sent, but DB update failed: connection timeout''\<rparr>]
   \<and> failed_for 3 (report (example_services [3] [1]) example_tickets no_flags)
        = [\<lparr>failed_id_user = 3, error = ''You have reached your daily email sending quota''\<rparr>]
   \<and> success_for 1 (report (example_services [3] [1]) example_tickets no_flags) = []
   \<and> calls_for 1 (calls_made (example_services [3] [1]) example_tickets no_flags)
        = [SendCall 1 (render_request ''juan@example.com'' group1), UpdateCall 1 [10, 11]]"
proof -
  have h1: "group1 \<in> set (groups_of example_tickets)"
    by (simp add: groups_of_example)
  have h2: "email group1 = Some ''juan@example.com''" and h3: "''juan@example.com'' \<noteq> []"
    by (simp_all add: example_defs)
  have h4: "emails_send (example_services [3] [1]) (id_user group1)
        (render_request ''juan@example.com'' group1) = SendData ''id-juan@example.com''"
    by (simp add: example_defs render_request_def Let_def)
  have h5: "update_in (example_services [3] [1]) (id_user group1) (map id_tickets (user_tickets group1))
        = Some \<lparr>pg_message = ''connection timeout''\<rparr>"
    by (simp add: example_defs)
  have ids: "id_user group1 = 1" "map id_tickets (user_tickets group1) = [10, 11]"
    by (simp_all add: example_defs)
  have other: "failed_for 3 (report (example_services [3] [1]) example_tickets no_flags)
        = [\<lparr>failed_id_user = 3, error = ''You have reached your daily email sending quota''\<rparr>]"
    by (simp add: example_defs run_defs)
  show ?thesis
    using update_failure [OF h1 h2 h3 h4 h5, of no_flags] h1 h2 h3 h4 h5 other
    by (simp add: ids)
qed

text \<open>
  C6. A group whose user has no e-mail address (null or the empty string) has one failed
  entry, with the text of the missing address, and no success entry. Its task makes no
  call at all, neither to the provider nor to the store, and every ticket of the group
  keeps its flag (ticket identifiers being unique).
\<close>

theorem missing_email:
  assumes "g \<in> set (groups_of ts)"
    and "email g = None \<or> email g = Some []"
  shows "failed_for (id_user g) (report sv ts db)
           = [\<lparr>failed_id_user = id_user g, error = ''El usuario no tiene un email registrado.''\<rparr>]
       \<and> success_for (id_user g) (report sv ts db) = []
       \<and> calls_for (id_user g) (calls_made sv ts db) = []
       \<and> (distinct (map id_tickets ts) \<longrightarrow>
            (\<forall>t \<in> set (user_tickets g). table_after sv ts db (id_tickets t) = db (id_tickets t)))"
proof -
  note task = task_missing_email [OF assms(2)]
  have s: "settle sv g = PromiseFulfilled (StatusRejected
        \<lparr>failed_id_user = id_user g, error = ''El usuario no tiene un email registrado.''\<rparr>)"
    and c: "calls_of sv g = []"
    by (simp_all add: settle_def calls_of_def task)
  have "\<not> acknowledged sv g"
    by (simp add: acknowledged_def s)
  then have "distinct (map id_tickets ts) \<longrightarrow>
      (\<forall>t \<in> set (user_tickets g). table_after sv ts db (id_tickets t) = db (id_tickets t))"
    using flags_kept [OF assms(1)] by blast
  then show ?thesis
    using assms(1)
    by (simp add: report_def calls_made_def success_for_dispatch failed_for_dispatch
        calls_for_dispatch s c)
qed

theorem missing_email_witness:
  "group2 \<in> set (groups_of example_tickets)
   \<and> email group2 = None
   \<and> distinct (map id_tickets example_tickets)
   \<and> failed_for 2 (report (example_services [] []) example_tickets no_flags)
        = [\<lparr>failed_id_user = 2, error = ''El usuario no tiene un email registrado.''\<rparr>]
   \<and> success_for 2 (report (example_services [] []) example_tickets no_flags) = []
   \<and> calls_for 2 (calls_made (example_services [] []) example_tickets no_flags) = []
   \<and> table_after (example_services [] []) example_tickets no_flags 12 = no_flags 12"
proof -
  have h1: "group2 \<in> set (groups_of example_tickets)"
    by (simp add: groups_of_example)
  have h2: "email group2 = None"
    by (simp add: example_defs)
  have h3: "distinct (map id_tickets example_tickets)"
    by (simp add: example_defs)
  have ids: "id_user group2 = 2" "set (user_tickets group2) = {ticket_of 12 ''3'' (RelObject user2)}"
    "id_tickets (ticket_of 12 ''3'' (RelObject user2)) = 12"
    by (simp_all add: example_defs)
  show ?thesis
    using missing_email [OF h1 disjI1 [OF h2], of "example_services [] []" no_flags]
      h1 h2 h3
    by (simp add: ids)
qed

text \<open>
  C7. When the query is answered with an error, the handler returns status 500 with the
  message of that error, whatever data came with it; the fetch is the only call made and
  the table is as before. When the query is answered without error and with no row (null
  or the empty list), it returns status 200 with a message and no error field, again with
  no other call and the table as before.
\<close>

theorem fetch_error_or_nothing_pending:
  assumes "authHeader = Some (''Bearer '' @ (case cron_secret of None \<Rightarrow> ''undefined'' | Some s \<Rightarrow> s))"
  shows "(fetch_error fetched = Some fetchError \<longrightarrow>
            POST authHeader cron_secret fetched sv db =
              (\<lparr>status = 500,
                body = MessageError ''Error al obtener usuarios para enviar correos''
                         (pg_message fetchError)\<rparr>,
               [FetchCall], db))
       \<and> (fetch_error fetched = None
            \<and> (fetch_data fetched = None \<or> fetch_data fetched = Some []) \<longrightarrow>
            POST authHeader cron_secret fetched sv db =
              (\<lparr>status = 200, body = Message ''No hay correos pendientes por enviar.''\<rparr>,
               [FetchCall], db))"
  using assms by (auto simp: POST_def)

theorem fetch_error_or_nothing_pending_witness:
  "Some ''Bearer s3cret'' = Some (''Bearer '' @ (case Some ''s3cret'' of None \<Rightarrow> ''undefined'' | Some s \<Rightarrow> s))
   \<and> POST (Some ''Bearer s3cret'') (Some ''s3cret'')
        \<lparr>fetch_data = Some example_tickets, fetch_error = Some \<lparr>pg_message = ''permission denied''\<rparr>\<rparr>
        (example_services [] []) no_flags
      = (\<lparr>status = 500,
          body = MessageError ''Error al obtener usuarios para enviar correos'' ''permission denied''\<rparr>,
         [FetchCall], no_flags)
   \<and> POST (Some ''Bearer s3cret'') (Some ''s3cret'')
        \<lparr>fetch_data = Some [], fetch_error = None\<rparr> (example_services [] []) no_flags
      = (\<lparr>status = 200, body = Message ''No hay correos pendientes por enviar.''\<rparr>,
         [FetchCall], no_flags)"
proof -
  have h: "Some ''Bearer s3cret'' = Some (''Bearer '' @ (case Some ''s3cret'' of None \<Rightarrow> ''undefined'' | Some s \<Rightarrow> s))"
    by simp
  show ?thesis
    using fetch_error_or_nothing_pending [OF h,
        of "\<lparr>fetch_data = Some example_tickets, fetch_error = Some \<lparr>pg_message = ''permission denied''\<rparr>\<rparr>"
           "\<lparr>pg_message = ''permission denied''\<rparr>" "example_services [] []" no_flags]
      fetch_error_or_nothing_pending [OF h,
        of "\<lparr>fetch_data = Some [], fetch_error = None\<rparr>" "\<lparr>pg_message = []\<rparr>"
           "example_services [] []" no_flags]
    by simp
qed

text \<open>
  C8. The groups are a function of the fetched list alone. There is one group per user
  identifier; the tickets of a group are exactly the fetched tickets whose resolved user
  has the group's identifier, in the order fetched, and there is at least one. Two fetched
  tickets with resolved users are in a common group if and only if their users have the
  same identifier. A group is sent as one message at most: the send calls of its user are
  the single request rendered from the group when the address is usable and none
  otherwise, and that request counts and lists all the tickets of the group.
\<close>

theorem grouping_by_user:
  "distinct (map id_user (groups_of ts))
   \<and> (\<forall>g \<in> set (groups_of ts).
         user_tickets g = filter (\<lambda>t. groupKey_of t = Some (id_user g)) ts
         \<and> user_tickets g \<noteq> [])
   \<and> (\<forall>t1 \<in> set ts. \<forall>t2 \<in> set ts. \<forall>u1 u2.
         resolve_user t1 = Some u1 \<longrightarrow> resolve_user t2 = Some u2 \<longrightarrow>
         ((\<exists>g \<in> set (groups_of ts). t1 \<in> set (user_tickets g) \<and> t2 \<in> set (user_tickets g))
            \<longleftrightarrow> id_user u1 = id_user u2))
   \<and> (\<forall>g \<in> set (groups_of ts).
         filter is_send (calls_for (id_user g) (calls_made sv ts db))
           = (case email g of
                None \<Rightarrow> []
              | Some addr \<Rightarrow>
                  if addr = [] then [] else [SendCall (id_user g) (render_request addr g)])
         \<and> (\<forall>addr. ticketCount (react (render_request addr g)) = length (user_tickets g)
               \<and> props_tickets (react (render_request addr g))
                   = join '', '' (map (\<lambda>t. padStart 4 (CHR ''0'') (tickets t)) (user_tickets g))))"
proof -
  have same: "(\<exists>g \<in> set (groups_of ts). t1 \<in> set (user_tickets g) \<and> t2 \<in> set (user_tickets g))
            \<longleftrightarrow> id_user u1 = id_user u2"
    if t1: "t1 \<in> set ts" and t2: "t2 \<in> set ts"
      and u1: "resolve_user t1 = Some u1" and u2: "resolve_user t2 = Some u2" for t1 t2 u1 u2
  proof
    assume "\<exists>g \<in> set (groups_of ts). t1 \<in> set (user_tickets g) \<and> t2 \<in> set (user_tickets g)"
    then obtain g where g: "g \<in> set (groups_of ts)"
      and in1: "t1 \<in> set (user_tickets g)" and in2: "t2 \<in> set (user_tickets g)"
      by blast
    have "groupKey_of t1 = Some (id_user g)" "groupKey_of t2 = Some (id_user g)"
      using in1 in2 group_user_tickets(1) [OF g] by auto
    then show "id_user u1 = id_user u2"
      using u1 u2 by (simp add: groupKey_of_def)
  next
    assume eq: "id_user u1 = id_user u2"
    have k1: "groupKey_of t1 = Some (id_user u1)" and k2: "groupKey_of t2 = Some (id_user u1)"
      using u1 u2 eq by (simp_all add: groupKey_of_def)
    obtain g where g: "g \<in> set (groups_of ts)" "id_user g = id_user u1"
      using group_exists [OF t1 k1] by blast
    have "t1 \<in> set (user_tickets g)" "t2 \<in> set (user_tickets g)"
      using group_user_tickets(1) [OF g(1)] t1 t2 k1 k2 g(2) by auto
    then show "\<exists>g \<in> set (groups_of ts). t1 \<in> set (user_tickets g) \<and> t2 \<in> set (user_tickets g)"
      using g(1) by blast
  qed
  have sends: "filter is_send (calls_for (id_user g) (calls_made sv ts db))
           = (case email g of
                None \<Rightarrow> []
              | Some addr \<Rightarrow>
                  if addr = [] then [] else [SendCall (id_user g) (render_request addr g)])"
    if "g \<in> set (groups_of ts)" for g
    using calls_for_dispatch [OF that, of sv db] by (simp add: calls_made_def send_calls_of)
  have batch: "ticketCount (react (render_request addr g)) = length (user_tickets g)
               \<and> props_tickets (react (render_request addr g))
                   = join '', '' (map (\<lambda>t. padStart 4 (CHR ''0'') (tickets t)) (user_tickets g))"
    for addr and g :: UserGroup
    by (simp add: render_request_def Let_def)
  show ?thesis
    using distinct_groups_of [of ts] group_user_tickets [of _ ts] same sends batch
    by blast
qed

theorem grouping_by_user_witness:
  "distinct (map id_user (groups_of example_tickets))
   \<and> group1 \<in> set (groups_of example_tickets)
   \<and> user_tickets group1 = filter (\<lambda>t. groupKey_of t = Some (id_user group1)) example_tickets
   \<and> map tickets (user_tickets group1) = [''7'', ''42'']
   \<and> (\<exists>g \<in> set (groups_of example_tickets).
         ticket_of 10 ''7'' (RelArray [user1]) \<in> set (user_tickets g)
         \<and> ticket_of 11 ''42'' (RelArray [user1]) \<in> set (user_tickets g))
   \<and> \<not> (\<exists>g \<in> set (groups_of example_tickets).
         ticket_of 10 ''7'' (RelArray [user1]) \<in> set (user_tickets g)
         \<and> ticket_of 12 ''3'' (RelObject user2) \<in> set (user_tickets g))
   \<and> filter is_send (calls_for (id_user group1)
        (calls_made (example_services [] []) example_tickets no_flags))
       = [SendCall (id_user group1) (render_request ''juan@example.com'' group1)]
   \<and> ticketCount (react (render_request ''juan@example.com'' group1)) = 2"
proof -
  note grouping = grouping_by_user [of example_tickets "example_services [] []" no_flags]
  have h: "group1 \<in> set (groups_of example_tickets)"
    by (simp add: groups_of_example)
  have d: "distinct (map id_user (groups_of example_tickets))"
    using grouping by blast
  have own: "user_tickets group1 = filter (\<lambda>t. groupKey_of t = Some (id_user group1)) example_tickets"
    using grouping h by blast
  have sends: "filter is_send (calls_for (id_user group1)
        (calls_made (example_services [] []) example_tickets no_flags))
       = (case email group1 of
                None \<Rightarrow> []
              | Some addr \<Rightarrow>
                  if addr = [] then [] else [SendCall (id_user group1) (render_request addr group1)])"
    using grouping h by blast
  have count: "ticketCount (react (render_request ''juan@example.com'' group1)) = length (user_tickets group1)"
    using grouping h by blast
  have e: "email group1 = Some ''juan@example.com''" "length (user_tickets group1) = 2"
    "map tickets (user_tickets group1) = [''7'', ''42'']"
    by (simp_all add: example_defs)
  have t: "ticket_of 10 ''7'' (RelArray [user1]) \<in> set example_tickets"
    "ticket_of 11 ''42'' (RelArray [user1]) \<in> set example_tickets"
    "ticket_of 12 ''3'' (RelObject user2) \<in> set example_tickets"
    "resolve_user (ticket_of 10 ''7'' (RelArray [user1])) = Some user1"
    "resolve_user (ticket_of 11 ''42'' (RelArray [user1])) = Some user1"
    "resolve_user (ticket_of 12 ''3'' (RelObject user2)) = Some user2"
    "id_user user1 \<noteq> id_user user2"
    by (simp_all add: example_defs resolve_user_def)
  have together: "\<exists>g \<in> set (groups_of example_tickets).
         ticket_of 10 ''7'' (RelArray [user1]) \<in> set (user_tickets g)
         \<and> ticket_of 11 ''42'' (RelArray [user1]) \<in> set (user_tickets g)"
    using grouping t(1,2,4,5) by blast
  have apart: "\<not> (\<exists>g \<in> set (groups_of example_tickets).
         ticket_of 10 ''7'' (RelArray [user1]) \<in> set (user_tickets g)
         \<and> ticket_of 12 ''3'' (RelObject user2) \<in> set (user_tickets g))"
    using grouping t(1,3,4,6,7) by blast
  have sends': "filter is_send (calls_for (id_user group1)
        (calls_made (example_services [] []) example_tickets no_flags))
       = [SendCall (id_user group1) (render_request ''juan@example.com'' group1)]"
    using sends by (simp add: e)
  have count': "ticketCount (react (render_request ''juan@example.com'' group1)) = 2"
    using count by (simp add: e)
  show ?thesis
    using h d own e(3) sends' count' together apart by blast
qed




text \<open>
  C10. A fetched ticket whose payment resolves to no user is in no group. The groups, the
  report, the calls and the table after the run are those of the run over the list
  without that ticket, and the ticket's own flag is as before (ticket identifiers being
  unique).
\<close>

theorem unresolved_ticket_skipped:
  assumes "t \<in> set ts" and "resolve_user t = None"
  shows "(\<forall>g \<in> set (groups_of ts). t \<notin> set (user_tickets g))
       \<and> groups_of ts = groups_of (removeAll t ts)
       \<and> report sv ts db = report sv (removeAll t ts) db
       \<and> calls_made sv ts db = calls_made sv (removeAll t ts) db
       \<and> table_after sv ts db = table_after sv (removeAll t ts) db
       \<and> (distinct (map id_tickets ts) \<longrightarrow> table_after sv ts db (id_tickets t) = db (id_tickets t))"
proof -
  have no_group: "\<forall>g \<in> set (groups_of ts). t \<notin> set (user_tickets g)"
    using assms(2) group_user_tickets(1) by (auto simp: groupKey_of_def)
  have same: "groups_of ts = groups_of (removeAll t ts)"
    by (simp add: groups_of_def group_tickets_def removeAll_unresolved [OF assms(2)])
  have "\<not> (\<exists>g \<in> set (groups_of ts). acknowledged sv g \<and> id_tickets t \<in> set (ticket_ids g))"
    if d: "distinct (map id_tickets ts)"
  proof
    assume "\<exists>g \<in> set (groups_of ts). acknowledged sv g \<and> id_tickets t \<in> set (ticket_ids g)"
    then obtain g t' where g: "g \<in> set (groups_of ts)" and t': "t' \<in> set (user_tickets g)"
      "id_tickets t' = id_tickets t"
      by (auto simp: ticket_ids_def)
    have "t' \<in> set ts"
      using t'(1) group_user_tickets(1) [OF g] by auto
    moreover have "inj_on id_tickets (set ts)"
      using d by (simp add: distinct_map)
    ultimately have "t' = t"
      using assms(1) t'(2) by (auto dest: inj_onD)
    then show False
      using no_group g t'(1) by blast
  qed
  then have flag: "distinct (map id_tickets ts) \<longrightarrow>
      table_after sv ts db (id_tickets t) = db (id_tickets t)"
    unfolding table_after_def table_dispatch by blast
  show ?thesis
    using no_group same flag
    by (simp add: report_def calls_made_def table_after_def dispatch_def)
qed

theorem unresolved_ticket_skipped_witness:
  "ticket_of 13 ''9'' RelNull \<in> set example_tickets
   \<and> resolve_user (ticket_of 13 ''9'' RelNull) = None
   \<and> distinct (map id_tickets example_tickets)
   \<and> ticket_of 13 ''9'' RelNull \<notin> set (user_tickets group1)
   \<and> ticket_of 13 ''9'' RelNull \<notin> set (user_tickets group2)
   \<and> ticket_of 13 ''9'' RelNull \<notin> set (user_tickets group3)
   \<and> report (example_services [] []) example_tickets no_flags
       = report (example_services [] []) (removeAll (ticket_of 13 ''9'' RelNull) example_tickets) no_flags
   \<and> calls_made (example_services [] []) example_tickets no_flags
       = calls_made (example_services [] []) (removeAll (ticket_of 13 ''9'' RelNull) example_tickets) no_flags
   \<and> table_after (example_services [] []) example_tickets no_flags 13 = no_flags 13"
proof -
  have h1: "ticket_of 13 ''9'' RelNull \<in> set example_tickets"
    by (simp add: example_defs)
  have h2: "resolve_user (ticket_of 13 ''9'' RelNull) = None"
    by (simp add: example_defs resolve_user_def)
  have h3: "distinct (map id_tickets example_tickets)"
    by (simp add: example_defs)
  have i: "id_tickets (ticket_of 13 ''9'' RelNull) = 13"
    by (simp add: ticket_of_def)
  note run = unresolved_ticket_skipped [OF h1 h2, of "example_services [] []" no_flags]
  have a: "\<forall>g \<in> set (groups_of example_tickets). ticket_of 13 ''9'' RelNull \<notin> set (user_tickets g)"
    and b: "report (example_services [] []) example_tickets no_flags
       = report (example_services [] []) (removeAll (ticket_of 13 ''9'' RelNull) example_tickets) no_flags"
    and c: "calls_made (example_services [] []) example_tickets no_flags
       = calls_made (example_services [] []) (removeAll (ticket_of 13 ''9'' RelNull) example_tickets) no_flags"
    and d: "table_after (example_services [] []) example_tickets no_flags
              (id_tickets (ticket_of 13 ''9'' RelNull))
       = no_flags (id_tickets (ticket_of 13 ''9'' RelNull))"
    using run h3 by blast+
  show ?thesis
    using a b c d h1 h2 h3 unfolding groups_of_example i by simp
qed

end
